theory Spec2Isabelle
  imports Main "HOL-Library.Char_ord" "HOL-Library.List_Lexorder"
begin

section \<open>Strings\<close>

text \<open>
  A Python \<open>str\<close> is modelled as a \<open>string\<close>, one \<open>char\<close> per code point; the model
  covers the code points below 256. \<open>isspace\<close> is \<open>str.isspace\<close> on that range
  (TAB to CR, FS to US and the space, NEL, NBSP), which is also what \<open>str.strip()\<close> removes.
\<close>

definition isspace :: "char \<Rightarrow> bool" where
  "isspace c =
     (let n = (of_char c :: nat)
      in (9 \<le> n \<and> n \<le> 13) \<or> (28 \<le> n \<and> n \<le> 32) \<or> n = 133 \<or> n = 160)"

definition strip :: "string \<Rightarrow> string" where
  "strip s = rev (dropWhile isspace (rev (dropWhile isspace s)))"

definition startswith :: "string \<Rightarrow> string \<Rightarrow> bool" where
  "startswith s p = (take (length p) s = p)"

text \<open>\<open>sub in s\<close> on strings.\<close>

fun contains :: "string \<Rightarrow> string \<Rightarrow> bool" where
  "contains sub [] = startswith [] sub"
| "contains sub (c # cs) = (startswith (c # cs) sub \<or> contains sub cs)"

text \<open>\<open>str(n)\<close> for a non-negative integer.\<close>

fun str_nat :: "nat \<Rightarrow> string" where
  "str_nat n =
     (if n < 10 then [char_of (48 + n)]
      else str_nat (n div 10) @ [char_of (48 + n mod 10)])"

section \<open>extract_video_id\<close>

text \<open>The character class \<open>[a-zA-Z0-9_-]\<close>.\<close>

definition idchar :: "char \<Rightarrow> bool" where
  "idchar c =
     ((CHR ''a'' \<le> c \<and> c \<le> CHR ''z'') \<or> (CHR ''A'' \<le> c \<and> c \<le> CHR ''Z'') \<or>
      (CHR ''0'' \<le> c \<and> c \<le> CHR ''9'') \<or> c = CHR ''_'' \<or> c = CHR ''-'')"

text \<open>
  The group \<open>([a-zA-Z0-9_-]{11})\<close> matched at the head of \<open>s\<close>: exactly eleven characters
  of the class are consumed, whatever follows.
\<close>

definition id_group :: "string \<Rightarrow> string option" where
  "id_group s =
     (if 11 \<le> length s \<and> list_all idchar (take 11 s) then Some (take 11 s) else None)"

text \<open>
  The alternatives of \<open>(?:youtube\.com\/watch\?v=|youtu\.be\/|youtube\.com\/embed\/)\<close>,
  in the order of the pattern.
\<close>

definition markers :: "string list" where
  "markers = [''youtube.com/watch?v='', ''youtu.be/'', ''youtube.com/embed/'']"

text \<open>
  Matching the first pattern at one start position: the alternatives are tried in order,
  and when the group fails after an alternative the next alternative is tried.
\<close>

fun match_alternatives :: "string list \<Rightarrow> string \<Rightarrow> string option" where
  "match_alternatives [] s = None"
| "match_alternatives (m # ms) s =
     (if startswith s m
      then (case id_group (drop (length m) s) of
              Some g \<Rightarrow> Some g
            | None \<Rightarrow> match_alternatives ms s)
      else match_alternatives ms s)"

text \<open>\<open>re.search\<close> with the first pattern: the start positions are tried from the left.\<close>

fun re_search_url :: "string \<Rightarrow> string option" where
  "re_search_url [] = match_alternatives markers []"
| "re_search_url (c # cs) =
     (case match_alternatives markers (c # cs) of
        Some g \<Rightarrow> Some g
      | None \<Rightarrow> re_search_url cs)"

text \<open>
  \<open>re.search\<close> with \<open>^([a-zA-Z0-9_-]{11})$\<close>: without MULTILINE \<open>^\<close> matches at the start
  only, and \<open>$\<close> at the end or before a newline that ends the string.
\<close>

definition re_search_bare :: "string \<Rightarrow> string option" where
  "re_search_bare s =
     (case id_group s of
        Some g \<Rightarrow> (if drop 11 s = [] \<or> drop 11 s = [CHR 0x0A] then Some g else None)
      | None \<Rightarrow> None)"

definition extract_video_id :: "string \<Rightarrow> string option" where
  "extract_video_id url =
     (case re_search_url url of
        Some g \<Rightarrow> Some g
      | None \<Rightarrow> re_search_bare url)"

section \<open>The world around the handler\<close>

text \<open>
  What \<open>handle_process\<close> reads from its surroundings. A storage directory is either
  missing (\<open>None\<close>) or maps entry names to entries; \<open>os.path.exists\<close> on a path inside
  it looks the name up and is \<open>False\<close> when the directory itself is missing.
  \<open>home_dir\<close> is what \<open>~\<close> expands to, \<open>nvm_nodes\<close> the result of the \<open>glob\<close> for the
  nvm installations of Node 20, \<open>path_exists\<close> is \<open>os.path.exists\<close> on the paths outside
  the data directory. \<open>log_failure\<close> is the exception, if any, raised while the logs
  directory is created and the batch header is appended to the log. \<open>popen n cmd\<close> is
  the outcome of the \<open>n\<close>-th launch step of the request (the marker appended to the log
  and \<open>subprocess.Popen\<close> on \<open>cmd\<close>): the text of the exception raised, or the process
  id of the child.
\<close>

datatype entry = File string | Directory

type_synonym directory = "string \<rightharpoonup> entry"

record environment =
  script_dir :: string
  home_dir :: string
  raw_lyrics_dir :: "directory option"
  transcribed_lyrics_dir :: "directory option"
  nvm_nodes :: "string list"
  path_exists :: "string \<Rightarrow> bool"
  log_failure :: "string option"
  popen :: "nat \<Rightarrow> string list \<Rightarrow> string + nat"

definition path_join :: "string \<Rightarrow> string \<Rightarrow> string" where
  "path_join a b =
     (if startswith b ''/'' then b
      else if a = [] \<or> last a = CHR ''/'' then a @ b
      else a @ ''/'' @ b)"

definition LOGS_DIR :: "environment \<Rightarrow> string" where
  "LOGS_DIR env = path_join (script_dir env) ''logs''"

definition exists_in :: "directory option \<Rightarrow> string \<Rightarrow> bool" where
  "exists_in d name = (case d of None \<Rightarrow> False | Some files \<Rightarrow> files name \<noteq> None)"

section \<open>check_existing_videos\<close>

record existing_videos =
  raw_lyrics :: "string list"
  transcribed_lyrics :: "string list"
  both :: "string list"

definition has_raw :: "environment \<Rightarrow> string \<Rightarrow> bool" where
  "has_raw env video_id = exists_in (raw_lyrics_dir env) (video_id @ ''.json'')"

definition has_transcribed :: "environment \<Rightarrow> string \<Rightarrow> bool" where
  "has_transcribed env video_id = exists_in (transcribed_lyrics_dir env) (video_id @ ''.json'')"

text \<open>The body of the loop over the ids.\<close>

definition check_step :: "environment \<Rightarrow> existing_videos \<Rightarrow> string \<Rightarrow> existing_videos" where
  "check_step env ex video_id =
     (if has_raw env video_id \<and> has_transcribed env video_id
      then ex\<lparr>both := both ex @ [video_id]\<rparr>
      else if has_raw env video_id
      then ex\<lparr>raw_lyrics := raw_lyrics ex @ [video_id]\<rparr>
      else if has_transcribed env video_id
      then ex\<lparr>transcribed_lyrics := transcribed_lyrics ex @ [video_id]\<rparr>
      else ex)"

definition check_existing_videos :: "environment \<Rightarrow> string list \<Rightarrow> existing_videos" where
  "check_existing_videos env vids =
     foldl (check_step env) \<lparr>raw_lyrics = [], transcribed_lyrics = [], both = []\<rparr> vids"

section \<open>handle_process\<close>

text \<open>The JSON object sent back, a key that is absent being \<open>None\<close>, and the HTTP status.\<close>

record response =
  status :: nat
  success :: bool
  error :: "string option"
  message :: "string option"
  video_ids :: "string list option"
  new_video_ids :: "string list option"
  invalid_urls :: "string list option"
  existing :: "existing_videos option"
  skipped :: "bool option"
  process_ids :: "nat list option"
  log_file :: "string option"

definition failure :: "nat \<Rightarrow> string \<Rightarrow> response" where
  "failure st msg =
     \<lparr>status = st, success = False, error = Some msg, message = None, video_ids = None,
      new_video_ids = None, invalid_urls = None, existing = None, skipped = None,
      process_ids = None, log_file = None\<rparr>"

text \<open>
  The loop over the submitted references: each is stripped, an empty one is passed over,
  and the others go to the ids or to the invalid references.
\<close>

definition extract_step :: "string list \<times> string list \<Rightarrow> string \<Rightarrow> string list \<times> string list" where
  "extract_step acc raw =
     (let url = strip raw
      in if url = [] then acc
         else (case extract_video_id url of
                 Some video_id \<Rightarrow>
                   (if video_id \<noteq> [] then (fst acc @ [video_id], snd acc)
                    else (fst acc, snd acc @ [url]))
               | None \<Rightarrow> (fst acc, snd acc @ [url])))"

definition extract_ids :: "string list \<Rightarrow> string list \<times> string list" where
  "extract_ids urls = foldl extract_step ([], []) urls"

definition admit :: "existing_videos \<Rightarrow> string list \<Rightarrow> string list" where
  "admit ex vids =
     filter (\<lambda>vid. vid \<notin> set (both ex) \<and> vid \<notin> set (raw_lyrics ex) \<and>
                   vid \<notin> set (transcribed_lyrics ex)) vids"

subsection \<open>Finding Node\<close>

record runtime =
  node_cmd :: "string option"
  use_nvm_bash :: bool
  nvm_source :: "string option"

definition truthy :: "string option \<Rightarrow> bool" where
  "truthy v = (case v of None \<Rightarrow> False | Some s \<Rightarrow> s \<noteq> [])"

definition common_paths :: "environment \<Rightarrow> string list" where
  "common_paths env =
     [''/usr/local/bin/node20'',
      ''/usr/bin/node20'',
      ''/opt/homebrew/bin/node20'',
      home_dir env @ ''/.nvm/versions/node/v20.0.0/bin/node'',
      home_dir env @ ''/.nvm/versions/node/v20.11.0/bin/node'',
      home_dir env @ ''/.nvm/versions/node/v20.10.0/bin/node'']"

definition resolve_runtime :: "environment \<Rightarrow> runtime" where
  "resolve_runtime env =
     (let by_nvm = (if nvm_nodes env \<noteq> [] then Some (last (sort (nvm_nodes env))) else None);
          by_path = (if truthy by_nvm then by_nvm
                     else (case find (path_exists env) (common_paths env) of
                             Some p \<Rightarrow> Some p
                           | None \<Rightarrow> by_nvm))
      in if truthy by_path
         then \<lparr>node_cmd = by_path, use_nvm_bash = False, nvm_source = None\<rparr>
         else (let src = home_dir env @ ''/.nvm/nvm.sh''
               in if path_exists env src
                  then \<lparr>node_cmd = by_path, use_nvm_bash = True, nvm_source = Some src\<rparr>
                  else \<lparr>node_cmd = Some ''node'', use_nvm_bash = False, nvm_source = Some src\<rparr>))"

subsection \<open>The command of one worker\<close>

definition script_rel_path :: string where
  "script_rel_path = ''scripts/download-and-transcribe.ts''"

text \<open>\<open>s.replace("'", "'\"'\"'")\<close>.\<close>

definition shell_escape :: "string \<Rightarrow> string" where
  "shell_escape s =
     concat (map (\<lambda>c. if c = CHR 0x27
                       then [CHR 0x27, CHR 0x22, CHR 0x27, CHR 0x22, CHR 0x27]
                       else [c]) s)"

definition build_cmd :: "runtime \<Rightarrow> string \<Rightarrow> string list" where
  "build_cmd rt video_id =
     (if use_nvm_bash rt
      then [''bash'', ''-c'',
            ''source '' @ (case nvm_source rt of Some src \<Rightarrow> src | None \<Rightarrow> ''None'') @
            '' && nvm use 20 > /dev/null 2>&1 && node -r ts-node/register '' @
            shell_escape script_rel_path @ '' --skip-existing '' @ shell_escape video_id]
      else (case node_cmd rt of
              Some c \<Rightarrow>
                (if c \<noteq> []
                 then [c, ''-r'', ''ts-node/register'', script_rel_path, ''--skip-existing'', video_id]
                 else [''node'', ''-r'', ''ts-node/register'', script_rel_path, ''--skip-existing'',
                       video_id])
            | None \<Rightarrow>
                [''node'', ''-r'', ''ts-node/register'', script_rel_path, ''--skip-existing'',
                 video_id]))"

subsection \<open>The launches\<close>

text \<open>
  A call of \<open>Popen\<close> is recorded with its command and its outcome. The loop over the new
  ids appends the process id of each child; the exception of a launch leaves the loop.
\<close>

type_synonym popen_call = "string list \<times> (string + nat)"

fun launch_loop ::
  "environment \<Rightarrow> runtime \<Rightarrow> string list \<Rightarrow> nat list \<Rightarrow> popen_call list \<Rightarrow>
   (string + nat list) \<times> popen_call list" where
  "launch_loop env rt [] process_pids calls = (Inr process_pids, calls)"
| "launch_loop env rt (video_id # rest) process_pids calls =
     (let cmd = build_cmd rt video_id
      in case popen env (length calls) cmd of
           Inl e \<Rightarrow> (Inl e, calls @ [(cmd, Inl e)])
         | Inr pid \<Rightarrow>
             launch_loop env rt rest (process_pids @ [pid]) (calls @ [(cmd, Inr pid)]))"

text \<open>The handler of the exceptions raised between the resolution of Node and the last launch.\<close>

definition start_failure :: "string \<Rightarrow> response" where
  "start_failure e =
     failure 500
       (''Failed to start process: '' @
        (if contains ''package.json'' e \<and> contains ''SyntaxError'' e
         then e @ '' (There may be a malformed package.json in a parent directory. Check /mnt/media/c/easysong/package.json)''
         else e))"

definition dispatch ::
  "environment \<Rightarrow> string list \<Rightarrow> string list \<Rightarrow> existing_videos \<Rightarrow> string list \<Rightarrow>
   response \<times> popen_call list" where
  "dispatch env vids invalid ex new_ids =
     (let rt = resolve_runtime env
      in case log_failure env of
           Some e \<Rightarrow> (start_failure e, [])
         | None \<Rightarrow>
             (case launch_loop env rt new_ids [] [] of
                (Inl e, calls) \<Rightarrow> (start_failure e, calls)
              | (Inr process_pids, calls) \<Rightarrow>
                  (\<lparr>status = 200, success = True, error = None,
                    message = Some (''Processing '' @ str_nat (length new_ids) @
                                    '' new video(s) in background''),
                    video_ids = Some vids, new_video_ids = Some new_ids,
                    invalid_urls = Some invalid, existing = Some ex, skipped = None,
                    process_ids = Some process_pids,
                    log_file = Some (path_join (LOGS_DIR env) ''process.log'')\<rparr>, calls)))"

text \<open>
  The handler on a body that decodes to an object whose \<open>urls\<close> are strings (no key
  gives the empty list). The result is the response and the calls of \<open>Popen\<close> made.
\<close>

definition handle_process :: "environment \<Rightarrow> string list \<Rightarrow> response \<times> popen_call list" where
  "handle_process env urls =
     (if urls = [] then (failure 400 ''No URLs provided'', [])
      else (let vids = fst (extract_ids urls); invalid = snd (extract_ids urls)
            in if vids = []
               then ((failure 400 ''No valid YouTube video IDs found'')
                       \<lparr>invalid_urls := Some invalid\<rparr>, [])
               else (let ex = check_existing_videos env vids;
                         new_ids = admit ex vids
                     in if new_ids = []
                        then (\<lparr>status = 200, success = True, error = None,
                               message = Some ''All videos already exist'',
                               video_ids = Some vids, new_video_ids = None,
                               invalid_urls = Some invalid, existing = Some ex,
                               skipped = Some True, process_ids = None, log_file = None\<rparr>, [])
                        else dispatch env vids invalid ex new_ids)))"

section \<open>Vocabulary of the properties\<close>

text \<open>A valid token: eleven characters of the class.\<close>

definition token :: "string \<Rightarrow> bool" where
  "token t = (length t = 11 \<and> list_all idchar t)"

text \<open>A reference that is empty or made of whitespace only.\<close>

definition blank :: "string \<Rightarrow> bool" where
  "blank s = list_all isspace s"

text \<open>A marker of the first pattern starts at the head of \<open>s\<close>.\<close>

definition marker_at :: "string \<Rightarrow> bool" where
  "marker_at s = list_ex (startswith s) markers"

text \<open>The ids recognised in a batch and the ids admitted for it.\<close>

definition recognized_ids :: "string list \<Rightarrow> string list" where
  "recognized_ids urls = fst (extract_ids urls)"

definition admitted_ids :: "environment \<Rightarrow> string list \<Rightarrow> string list" where
  "admitted_ids env urls =
     admit (check_existing_videos env (recognized_ids urls)) (recognized_ids urls)"

text \<open>
  The shapes of a reference in the words of the specification: a marker of a full URL or
  of a short link followed by a token, with any text around them, and a token that is the
  whole reference.
\<close>

definition spec_url_shape :: "string \<Rightarrow> bool" where
  "spec_url_shape s = (\<exists>p m t r. s = p @ m @ t @ r \<and> m \<in> set markers \<and> token t)"

definition spec_bare_shape :: "string \<Rightarrow> bool" where
  "spec_bare_shape s = token s"

section \<open>Example surroundings\<close>

text \<open>
  No storage directory yet, no Node 20 found (the bare \<open>node\<close> is used), a writable log,
  and every launch gives a child.
\<close>

definition env_fresh :: environment where
  "env_fresh =
     \<lparr>script_dir = ''/srv/content-generation'', home_dir = ''/home/app'',
      raw_lyrics_dir = None, transcribed_lyrics_dir = None, nvm_nodes = [],
      path_exists = (\<lambda>p. False), log_failure = None,
      popen = (\<lambda>n cmd. Inr (4000 + n))\<rparr>"

text \<open>The same, but the second launch of a request raises.\<close>

definition env_second_launch_fails :: environment where
  "env_second_launch_fails =
     env_fresh\<lparr>popen := (\<lambda>n cmd. if n = 1 then Inl ''[Errno 13] Permission denied''
                                  else Inr (4000 + n))\<rparr>"

text \<open>The same as the first, but no launch succeeds.\<close>

definition env_no_node :: environment where
  "env_no_node =
     env_fresh\<lparr>popen := (\<lambda>n cmd. Inl ''[Errno 2] No such file or directory'')\<rparr>"

text \<open>Tier A holds an artifact of zero bytes, or one that is not JSON; tier B is missing.\<close>

definition env_zero_byte :: environment where
  "env_zero_byte =
     env_fresh\<lparr>raw_lyrics_dir := Some [''dQw4w9WgXcQ.json'' \<mapsto> File '''']\<rparr>"

definition env_corrupt :: environment where
  "env_corrupt =
     env_fresh\<lparr>raw_lyrics_dir := Some [''dQw4w9WgXcQ.json'' \<mapsto> File ''{not json'']\<rparr>"

section \<open>Facts about the extraction of an id\<close>

lemma startswith_set: "startswith s m \<Longrightarrow> set m \<subseteq> set s"
  unfolding startswith_def by (metis set_take_subset)

lemma match_alternatives_None:
  "\<forall>m\<in>set ms. \<not> startswith s m \<Longrightarrow> match_alternatives ms s = None"
  by (induction ms) simp_all

lemma slash_in_markers: "m \<in> set markers \<Longrightarrow> CHR ''/'' \<in> set m"
  by (auto simp: markers_def)

lemma no_slash_no_marker:
  "CHR ''/'' \<notin> set s \<Longrightarrow> match_alternatives markers s = None"
  using startswith_set slash_in_markers by (intro match_alternatives_None) blast

lemma no_slash_no_url: "CHR ''/'' \<notin> set s \<Longrightarrow> re_search_url s = None"
  by (induction s) (simp_all add: no_slash_no_marker)

lemma idchar_not_slash: "idchar c \<Longrightarrow> c \<noteq> CHR ''/''"
  by (auto simp: idchar_def)

lemma token_no_slash: "token t \<Longrightarrow> CHR ''/'' \<notin> set t"
  using idchar_not_slash by (auto simp: token_def list_all_iff)

lemma id_group_token: "token t \<Longrightarrow> id_group (t @ s) = Some t"
  by (simp add: id_group_def token_def)

lemma not_y_no_marker:
  "c \<noteq> CHR ''y'' \<Longrightarrow> match_alternatives markers (c # s) = None"
  by (intro match_alternatives_None) (auto simp: markers_def startswith_def)

lemma skip_prefix:
  "CHR ''y'' \<notin> set p \<Longrightarrow> re_search_url (p @ s) = re_search_url s"
  by (induction p) (auto simp: not_y_no_marker)

lemma re_search_url_hit:
  "match_alternatives markers s = Some g \<Longrightarrow> re_search_url s = Some g"
  by (cases s) simp_all

lemma bare_token: "token t \<Longrightarrow> re_search_bare t = Some t"
  using id_group_token[of t "[]"] by (simp add: re_search_bare_def token_def)

lemma marker_token:
  assumes "m \<in> set markers" "token t"
  shows "match_alternatives markers (m @ t @ s) = Some t"
proof -
  from assms(1) consider "m = ''youtube.com/watch?v=''" | "m = ''youtu.be/''"
    | "m = ''youtube.com/embed/''"
    by (auto simp: markers_def)
  then show ?thesis
  proof cases
    case 1
    then show ?thesis
      by (simp add: markers_def startswith_def id_group_token[OF assms(2)])
  next
    case 2
    then show ?thesis
      by (simp add: markers_def startswith_def id_group_token[OF assms(2)])
  next
    case 3
    then show ?thesis
      by (simp add: markers_def startswith_def id_group_token[OF assms(2)])
  qed
qed

lemma extract_marker_token:
  assumes "m \<in> set markers" "token t" "CHR ''y'' \<notin> set p"
  shows "extract_video_id (p @ m @ t @ s) = Some t"
  using re_search_url_hit[OF marker_token[OF assms(1,2)]] skip_prefix[OF assms(3)]
  by (simp add: extract_video_id_def)

lemma extract_bare_token: "token t \<Longrightarrow> extract_video_id t = Some t"
  by (simp add: extract_video_id_def no_slash_no_url token_no_slash bare_token)

lemma not_marker_at_None: "\<not> marker_at s \<Longrightarrow> match_alternatives markers s = None"
  by (intro match_alternatives_None) (simp add: marker_at_def list_ex_iff)

lemma skip_unmatched_prefix:
  "\<forall>i<length p. \<not> marker_at (drop i (p @ r)) \<Longrightarrow> re_search_url (p @ r) = re_search_url r"
proof (induction p)
  case Nil
  then show ?case by simp
next
  case (Cons a p)
  from Cons.prems have "\<not> marker_at (drop 0 ((a # p) @ r))"
    by (metis length_greater_0_conv list.distinct(1))
  then have h0: "match_alternatives markers (a # p @ r) = None"
    by (simp add: not_marker_at_None)
  have "\<forall>i<length p. \<not> marker_at (drop i (p @ r))"
  proof (intro allI impI)
    fix i assume "i < length p"
    then have "Suc i < length (a # p)" by simp
    with Cons.prems have "\<not> marker_at (drop (Suc i) ((a # p) @ r))" by blast
    then show "\<not> marker_at (drop i (p @ r))" by simp
  qed
  with Cons.IH have "re_search_url (p @ r) = re_search_url r" by blast
  with h0 show ?case by simp
qed

lemma marker_at_y: "marker_at s \<Longrightarrow> s \<noteq> [] \<and> hd s = CHR ''y''"
  by (cases s) (auto simp: marker_at_def markers_def startswith_def)

lemma no_y_no_marker_at:
  assumes "CHR ''y'' \<notin> set p"
  shows "\<forall>i<length p. \<not> marker_at (drop i (p @ r))"
proof (intro allI impI notI)
  fix i assume i: "i < length p" and m: "marker_at (drop i (p @ r))"
  from i have "hd (drop i (p @ r)) = p ! i"
    by (simp add: hd_drop_conv_nth nth_append)
  with marker_at_y[OF m] assms i show False
    by (metis nth_mem)
qed

lemma extract_after_token:
  assumes "token t" "r \<noteq> []" "r \<noteq> [CHR 0x0A]" "CHR ''/'' \<notin> set r"
  shows "extract_video_id (t @ r) = None"
proof -
  have "CHR ''/'' \<notin> set (t @ r)"
    using token_no_slash[OF assms(1)] assms(4) by simp
  then have "re_search_url (t @ r) = None"
    by (rule no_slash_no_url)
  moreover have "re_search_bare (t @ r) = None"
    using assms by (simp add: re_search_bare_def id_group_token token_def)
  ultimately show ?thesis
    by (simp add: extract_video_id_def)
qed

lemma foldl_check_step:
  "foldl (check_step env) ex vids =
     \<lparr>raw_lyrics = raw_lyrics ex @ filter (\<lambda>v. has_raw env v \<and> \<not> has_transcribed env v) vids,
      transcribed_lyrics =
        transcribed_lyrics ex @ filter (\<lambda>v. \<not> has_raw env v \<and> has_transcribed env v) vids,
      both = both ex @ filter (\<lambda>v. has_raw env v \<and> has_transcribed env v) vids\<rparr>"
  by (induction vids arbitrary: ex) (auto simp: check_step_def)

lemma check_existing_videos_filter:
  "check_existing_videos env vids =
     \<lparr>raw_lyrics = filter (\<lambda>v. has_raw env v \<and> \<not> has_transcribed env v) vids,
      transcribed_lyrics = filter (\<lambda>v. \<not> has_raw env v \<and> has_transcribed env v) vids,
      both = filter (\<lambda>v. has_raw env v \<and> has_transcribed env v) vids\<rparr>"
  by (simp add: check_existing_videos_def foldl_check_step)

lemma admit_check_existing_videos:
  "admit (check_existing_videos env vids) vids =
     filter (\<lambda>v. \<not> has_raw env v \<and> \<not> has_transcribed env v) vids"
  unfolding admit_def check_existing_videos_filter
  by (rule filter_cong) auto

lemma check_existing_videos_cong:
  assumes "\<forall>v\<in>set vids. has_raw env v = has_raw env' v \<and>
                          has_transcribed env v = has_transcribed env' v"
  shows "check_existing_videos env vids = check_existing_videos env' vids"
proof -
  have "filter (\<lambda>v. has_raw env v \<and> \<not> has_transcribed env v) vids =
        filter (\<lambda>v. has_raw env' v \<and> \<not> has_transcribed env' v) vids"
    using assms by (intro filter_cong) auto
  moreover have "filter (\<lambda>v. \<not> has_raw env v \<and> has_transcribed env v) vids =
        filter (\<lambda>v. \<not> has_raw env' v \<and> has_transcribed env' v) vids"
    using assms by (intro filter_cong) auto
  moreover have "filter (\<lambda>v. has_raw env v \<and> has_transcribed env v) vids =
        filter (\<lambda>v. has_raw env' v \<and> has_transcribed env' v) vids"
    using assms by (intro filter_cong) auto
  ultimately show ?thesis
    by (simp add: check_existing_videos_filter)
qed

lemma missing_raw_dir:
  "check_existing_videos (env\<lparr>raw_lyrics_dir := None\<rparr>) vids =
     \<lparr>raw_lyrics = [], transcribed_lyrics = filter (has_transcribed env) vids, both = []\<rparr>"
proof -
  have "\<And>v. \<not> has_raw (env\<lparr>raw_lyrics_dir := None\<rparr>) v"
    by (simp add: has_raw_def exists_in_def)
  moreover have "\<And>v. has_transcribed (env\<lparr>raw_lyrics_dir := None\<rparr>) v = has_transcribed env v"
    by (simp add: has_transcribed_def)
  ultimately show ?thesis
    by (simp add: check_existing_videos_filter)
qed

lemma missing_transcribed_dir:
  "check_existing_videos (env\<lparr>transcribed_lyrics_dir := None\<rparr>) vids =
     \<lparr>raw_lyrics = filter (has_raw env) vids, transcribed_lyrics = [], both = []\<rparr>"
proof -
  have "\<And>v. \<not> has_transcribed (env\<lparr>transcribed_lyrics_dir := None\<rparr>) v"
    by (simp add: has_transcribed_def exists_in_def)
  moreover have "\<And>v. has_raw (env\<lparr>transcribed_lyrics_dir := None\<rparr>) v = has_raw env v"
    by (simp add: has_raw_def)
  ultimately show ?thesis
    by (simp add: check_existing_videos_filter)
qed

lemma extract_ids_Nil: "extract_ids [] = ([], [])"
  by (simp add: extract_ids_def)

lemma launch_loop_isl:
  "isl (fst (launch_loop env rt ids pids calls)) \<longleftrightarrow>
   (\<exists>k<length ids. isl (popen env (length calls + k) (build_cmd rt (ids ! k))))"
proof (induction ids arbitrary: pids calls)
  case Nil
  then show ?case by simp
next
  case (Cons v rest)
  show ?case
  proof (cases "popen env (length calls) (build_cmd rt v)")
    case (Inl e)
    then have "isl (popen env (length calls + 0) (build_cmd rt ((v # rest) ! 0)))"
      by simp
    then have "\<exists>k<length (v # rest). isl (popen env (length calls + k) (build_cmd rt ((v # rest) ! k)))"
      by (intro exI[of _ 0]) simp
    with Inl show ?thesis by simp
  next
    case (Inr pid)
    have "(\<exists>k<length (v # rest). isl (popen env (length calls + k) (build_cmd rt ((v # rest) ! k)))) \<longleftrightarrow>
          (\<exists>k<length rest. isl (popen env (Suc (length calls) + k) (build_cmd rt (rest ! k))))"
      using Inr by (auto simp: less_Suc_eq_0_disj)
    with Inr Cons.IH[of "pids @ [pid]" "calls @ [(build_cmd rt v, Inr pid)]"] show ?thesis
      by simp
  qed
qed

lemma launch_loop_fail:
  assumes "k < length ids"
    and "\<forall>j<k. \<exists>pid. popen env (length calls + j) (build_cmd rt (ids ! j)) = Inr pid"
    and "popen env (length calls + k) (build_cmd rt (ids ! k)) = Inl e"
  shows "fst (launch_loop env rt ids pids calls) = Inl e \<and>
         map fst (snd (launch_loop env rt ids pids calls)) =
           map fst calls @ map (build_cmd rt) (take (Suc k) ids)"
  using assms
proof (induction ids arbitrary: k pids calls)
  case Nil
  then show ?case by simp
next
  case (Cons v rest)
  show ?case
  proof (cases k)
    case 0
    with Cons.prems show ?thesis by simp
  next
    case (Suc k')
    with Cons.prems(2) obtain pid where p: "popen env (length calls) (build_cmd rt v) = Inr pid"
      by fastforce
    have 1: "k' < length rest" using Cons.prems(1) Suc by simp
    have 2: "\<forall>j<k'. \<exists>pid'. popen env (length (calls @ [(build_cmd rt v, Inr pid)]) + j)
                 (build_cmd rt (rest ! j)) = Inr pid'"
    proof (intro allI impI)
      fix j assume "j < k'"
      then have "Suc j < k" using Suc by simp
      with Cons.prems(2) show "\<exists>pid'. popen env (length (calls @ [(build_cmd rt v, Inr pid)]) + j)
                 (build_cmd rt (rest ! j)) = Inr pid'"
        by fastforce
    qed
    have 3: "popen env (length (calls @ [(build_cmd rt v, Inr pid)]) + k')
               (build_cmd rt (rest ! k')) = Inl e"
      using Cons.prems(3) Suc by simp
    from Cons.IH[OF 1 2 3, of "pids @ [pid]"] p Suc show ?thesis
      by simp
  qed
qed

lemma launch_loop_ok:
  assumes "\<forall>j<length ids. \<exists>pid. popen env (length calls + j) (build_cmd rt (ids ! j)) = Inr pid"
  shows "\<exists>ps. length ps = length ids \<and>
           launch_loop env rt ids pids calls =
             (Inr (pids @ ps), calls @ zip (map (build_cmd rt) ids) (map Inr ps))"
  using assms
proof (induction ids arbitrary: pids calls)
  case Nil
  then show ?case by simp
next
  case (Cons v rest)
  from Cons.prems obtain pid where p: "popen env (length calls) (build_cmd rt v) = Inr pid"
    by fastforce
  have "\<forall>j<length rest. \<exists>pid'. popen env (length (calls @ [(build_cmd rt v, Inr pid)]) + j)
                 (build_cmd rt (rest ! j)) = Inr pid'"
  proof (intro allI impI)
    fix j assume "j < length rest"
    then have "Suc j < length (v # rest)" by simp
    with Cons.prems show "\<exists>pid'. popen env (length (calls @ [(build_cmd rt v, Inr pid)]) + j)
                 (build_cmd rt (rest ! j)) = Inr pid'"
      by fastforce
  qed
  from Cons.IH[OF this, of "pids @ [pid]"] obtain ps where
    ps: "length ps = length rest"
    "launch_loop env rt rest (pids @ [pid]) (calls @ [(build_cmd rt v, Inr pid)]) =
       (Inr ((pids @ [pid]) @ ps),
        (calls @ [(build_cmd rt v, Inr pid)]) @ zip (map (build_cmd rt) rest) (map Inr ps))"
    by blast
  show ?case
    using p ps by (intro exI[of _ "pid # ps"]) simp
qed

lemma status_failure: "status (failure st msg) = st"
  by (simp add: failure_def)

lemma status_start_failure: "status (start_failure e) = 500"
  by (simp add: start_failure_def failure_def)

lemma status_dispatch:
  "status (fst (dispatch env vids invalid ex new_ids)) =
     (if log_failure env \<noteq> None \<or> isl (fst (launch_loop env (resolve_runtime env) new_ids [] []))
      then 500 else 200)"
  by (auto simp: dispatch_def Let_def status_start_failure split: option.splits sum.splits prod.splits)

lemma launch_loop_Inr:
  "launch_loop env rt ids pids calls = (Inr ps, cs) \<Longrightarrow>
   \<exists>new. ps = pids @ new \<and> length new = length ids \<and>
         cs = calls @ zip (map (build_cmd rt) ids) (map Inr new)"
proof (induction ids arbitrary: pids calls)
  case Nil
  then show ?case by simp
next
  case (Cons v rest)
  from Cons.prems obtain pid where p: "popen env (length calls) (build_cmd rt v) = Inr pid"
    by (cases "popen env (length calls) (build_cmd rt v)") auto
  with Cons.prems have
    "launch_loop env rt rest (pids @ [pid]) (calls @ [(build_cmd rt v, Inr pid)]) = (Inr ps, cs)"
    by simp
  from Cons.IH[OF this] obtain new where
    "ps = (pids @ [pid]) @ new" "length new = length rest"
    "cs = (calls @ [(build_cmd rt v, Inr pid)]) @ zip (map (build_cmd rt) rest) (map Inr new)"
    by blast
  then show ?case
    by (intro exI[of _ "pid # new"]) simp
qed

lemma id_group_Some: "id_group s = Some g \<Longrightarrow> token g"
  by (auto simp: id_group_def token_def split: if_splits)

lemma match_alternatives_Some: "match_alternatives ms s = Some g \<Longrightarrow> token g"
  by (induction ms) (auto split: if_splits option.splits dest: id_group_Some)

lemma re_search_url_Some: "re_search_url s = Some g \<Longrightarrow> token g"
  by (induction s) (auto split: option.splits dest: match_alternatives_Some)

lemma extract_video_id_Some: "extract_video_id s = Some g \<Longrightarrow> token g"
  by (auto simp: extract_video_id_def re_search_bare_def
      split: option.splits if_splits dest: re_search_url_Some id_group_Some)

lemma token_not_Nil: "token g \<Longrightarrow> g \<noteq> []"
  by (auto simp: token_def)

lemma foldl_extract_step:
  "foldl extract_step acc urls =
     (fst acc @ List.map_filter extract_video_id (filter (\<lambda>x. x \<noteq> []) (map strip urls)),
      snd acc @ filter (\<lambda>x. x \<noteq> [] \<and> extract_video_id x = None) (map strip urls))"
proof (induction urls arbitrary: acc)
  case Nil
  then show ?case by (simp add: List.map_filter_def)
next
  case (Cons u urls)
  have "\<And>v. extract_video_id (strip u) = Some v \<Longrightarrow> v \<noteq> []"
    by (rule token_not_Nil[OF extract_video_id_Some])
  then have step: "extract_step acc u =
      (if strip u = [] then acc
       else case extract_video_id (strip u) of
              Some v \<Rightarrow> (fst acc @ [v], snd acc)
            | None \<Rightarrow> (fst acc, snd acc @ [strip u]))"
    by (auto simp: extract_step_def Let_def split: option.splits)
  show ?case
    by (simp add: Cons.IH step List.map_filter_def split: option.splits)
qed

lemma recognized_ids_eq:
  "recognized_ids urls =
     List.map_filter extract_video_id (filter (\<lambda>x. x \<noteq> []) (map strip urls))"
  by (simp add: recognized_ids_def extract_ids_def foldl_extract_step)

lemma invalid_eq:
  "snd (extract_ids urls) =
     filter (\<lambda>x. x \<noteq> [] \<and> extract_video_id x = None) (map strip urls)"
  by (simp add: extract_ids_def foldl_extract_step)

lemma strip_Nil_iff: "strip s = [] \<longleftrightarrow> blank s"
proof
  assume "strip s = []"
  then have "\<forall>x\<in>set (dropWhile isspace s). isspace x"
    by (simp add: strip_def dropWhile_eq_Nil_conv)
  then have "dropWhile isspace s = []"
    using hd_dropWhile[of isspace s] by (metis hd_in_set)
  then show "blank s"
    by (simp add: blank_def dropWhile_eq_Nil_conv list_all_iff)
next
  assume "blank s"
  then have "dropWhile isspace s = []"
    by (simp add: blank_def dropWhile_eq_Nil_conv list_all_iff)
  then show "strip s = []"
    by (simp only: strip_def rev.simps dropWhile.simps)
qed

lemma strip_not_blank:
  assumes "strip s \<noteq> []"
  shows "\<not> blank (strip s)"
proof -
  let ?d = "dropWhile isspace (rev (dropWhile isspace s))"
  from assms have d: "?d \<noteq> []" by (simp add: strip_def)
  then have "\<not> isspace (hd ?d)" by (rule hd_dropWhile)
  moreover have "hd ?d \<in> set (strip s)"
    using d by (simp add: strip_def)
  ultimately show ?thesis
    by (auto simp: blank_def list_all_iff)
qed

lemma dispatch_invalid_urls:
  "status (fst (dispatch env vids invalid ex new_ids)) \<noteq> 500 \<Longrightarrow>
   invalid_urls (fst (dispatch env vids invalid ex new_ids)) = Some invalid"
  by (auto simp: dispatch_def Let_def status_start_failure
      split: option.splits sum.splits prod.splits)

lemma handle_process_invalid_urls:
  assumes "urls \<noteq> []" and "status (fst (handle_process env urls)) \<noteq> 500"
  shows "invalid_urls (fst (handle_process env urls)) = Some (snd (extract_ids urls))"
  using assms dispatch_invalid_urls
  by (auto simp: handle_process_def Let_def failure_def)

lemma handle_process_status:
  "status (fst (handle_process env urls)) =
     (if recognized_ids urls = [] then 400
      else if admitted_ids env urls = [] then 200
      else if log_failure env \<noteq> None \<or>
              isl (fst (launch_loop env (resolve_runtime env) (admitted_ids env urls) [] []))
      then 500 else 200)"
  by (simp add: handle_process_def Let_def failure_def status_dispatch recognized_ids_def
      admitted_ids_def extract_ids_Nil)

lemma handle_process_dispatch:
  assumes "admitted_ids env urls \<noteq> []"
  shows "handle_process env urls =
     dispatch env (recognized_ids urls) (snd (extract_ids urls))
       (check_existing_videos env (recognized_ids urls)) (admitted_ids env urls)"
proof -
  have "recognized_ids urls \<noteq> []"
    using assms by (auto simp: admitted_ids_def admit_def)
  moreover from this have "urls \<noteq> []"
    by (auto simp: recognized_ids_def extract_ids_Nil)
  ultimately show ?thesis
    using assms by (simp add: handle_process_def Let_def recognized_ids_def admitted_ids_def)
qed

lemma admitted_ids_eq:
  "admitted_ids env urls =
     filter (\<lambda>v. \<not> has_raw env v \<and> \<not> has_transcribed env v) (recognized_ids urls)"
  by (simp add: admitted_ids_def admit_check_existing_videos)

lemma dispatch_process_ids:
  assumes "process_ids (fst (dispatch env vids invalid ex new_ids)) = Some pids"
  shows "launch_loop env (resolve_runtime env) new_ids [] [] =
           (Inr pids, snd (dispatch env vids invalid ex new_ids)) \<and>
         video_ids (fst (dispatch env vids invalid ex new_ids)) = Some vids \<and>
         new_video_ids (fst (dispatch env vids invalid ex new_ids)) = Some new_ids"
  using assms
  by (auto simp: dispatch_def Let_def start_failure_def failure_def
      split: option.splits sum.splits prod.splits)

lemma handle_process_process_ids:
  assumes "process_ids (fst (handle_process env urls)) = Some pids"
  shows "admitted_ids env urls \<noteq> []"
proof
  assume "admitted_ids env urls = []"
  then have "process_ids (fst (handle_process env urls)) = None"
    by (simp add: handle_process_def Let_def failure_def admitted_ids_def recognized_ids_def)
  with assms show False by simp
qed

lemma blank_extract_step: "blank u \<Longrightarrow> extract_step acc u = acc"
  by (simp add: extract_step_def strip_Nil_iff)

lemma blank_extract_ids:
  assumes "blank u"
  shows "extract_ids (us @ u # vs) = extract_ids (us @ vs)"
  by (simp add: extract_ids_def blank_extract_step[OF assms])

lemma startswith_append: "startswith s m \<Longrightarrow> s = m @ drop (length m) s"
  unfolding startswith_def by (metis append_take_drop_id)

lemma id_group_SomeD: "id_group s = Some g \<Longrightarrow> token g \<and> s = g @ drop 11 s"
  by (auto simp: id_group_def token_def split: if_splits)

lemma match_alternatives_SomeD:
  "match_alternatives ms s = Some g \<Longrightarrow>
   \<exists>m\<in>set ms. \<exists>r. s = m @ g @ r \<and> token g"
proof (induction ms)
  case Nil
  then show ?case by simp
next
  case (Cons m ms)
  show ?case
  proof (cases "startswith s m \<and> id_group (drop (length m) s) = Some g")
    case True
    then have "s = m @ drop (length m) s" and "token g"
      and "drop (length m) s = g @ drop 11 (drop (length m) s)"
      using startswith_append id_group_SomeD by blast+
    then have "s = m @ g @ drop 11 (drop (length m) s) \<and> token g"
      by metis
    then show ?thesis by auto
  next
    case False
    with Cons.prems have "match_alternatives ms s = Some g"
      by (auto split: if_splits option.splits)
    with Cons.IH show ?thesis by auto
  qed
qed

lemma re_search_url_SomeD:
  "re_search_url s = Some g \<Longrightarrow> \<exists>p m r. s = p @ m @ g @ r \<and> m \<in> set markers \<and> token g"
proof (induction s)
  case Nil
  then show ?case
    using match_alternatives_SomeD[of markers "[]" g] by fastforce
next
  case (Cons c cs)
  show ?case
  proof (cases "match_alternatives markers (c # cs)")
    case None
    with Cons.prems have "re_search_url cs = Some g" by simp
    with Cons.IH obtain p m r where "cs = p @ m @ g @ r" "m \<in> set markers" "token g"
      by blast
    then have "c # cs = (c # p) @ m @ g @ r \<and> m \<in> set markers \<and> token g"
      by simp
    then show ?thesis by blast
  next
    case (Some g')
    with Cons.prems have "g' = g" by simp
    with Some match_alternatives_SomeD[of markers "c # cs" g]
    obtain m r where "m \<in> set markers" "c # cs = m @ g @ r" "token g"
      by blast
    then have "c # cs = [] @ m @ g @ r \<and> m \<in> set markers \<and> token g"
      by simp
    then show ?thesis by blast
  qed
qed

lemma re_search_url_found:
  assumes "m \<in> set markers" "token t"
  shows "re_search_url (p @ m @ t @ r) \<noteq> None"
proof (induction p)
  case Nil
  then show ?case
    using re_search_url_hit[OF marker_token[OF assms]] by simp
next
  case (Cons a p)
  then show ?case
    by (cases "match_alternatives markers (a # p @ m @ t @ r)") simp_all
qed

lemma re_search_url_None_iff: "re_search_url s = None \<longleftrightarrow> \<not> spec_url_shape s"
proof
  assume n: "re_search_url s = None"
  show "\<not> spec_url_shape s"
  proof
    assume "spec_url_shape s"
    then obtain p m t r where "s = p @ m @ t @ r" "m \<in> set markers" "token t"
      unfolding spec_url_shape_def by blast
    with re_search_url_found[of m t p r] n show False by simp
  qed
next
  assume n: "\<not> spec_url_shape s"
  show "re_search_url s = None"
  proof (cases "re_search_url s")
    case None
    then show ?thesis .
  next
    case (Some g)
    from re_search_url_SomeD[OF Some] n show ?thesis
      unfolding spec_url_shape_def by blast
  qed
qed

lemma re_search_bare_None_iff:
  "re_search_bare s = None \<longleftrightarrow> \<not> token s \<and> \<not> (\<exists>t. token t \<and> s = t @ [CHR 0x0A])"
proof (cases "id_group s")
  case None
  have "\<not> token s"
    using None id_group_token[of s "[]"] by auto
  moreover have "\<not> (\<exists>t. token t \<and> s = t @ [CHR 0x0A])"
    using None id_group_token by fastforce
  ultimately show ?thesis
    using None by (simp add: re_search_bare_def)
next
  case (Some g)
  from id_group_SomeD[OF Some] have g: "token g" "s = g @ drop 11 s" by simp_all
  have 1: "token s \<longleftrightarrow> drop 11 s = []"
    using g by (metis append_Nil2 token_def drop_all order_refl)
  have 2: "(\<exists>t. token t \<and> s = t @ [CHR 0x0A]) \<longleftrightarrow> drop 11 s = [CHR 0x0A]"
  proof
    assume "\<exists>t. token t \<and> s = t @ [CHR 0x0A]"
    then obtain t where "token t" "s = t @ [CHR 0x0A]" by blast
    then show "drop 11 s = [CHR 0x0A]" by (simp add: token_def)
  next
    assume "drop 11 s = [CHR 0x0A]"
    with g show "\<exists>t. token t \<and> s = t @ [CHR 0x0A]" by metis
  qed
  show ?thesis
    using Some 1 2 by (simp add: re_search_bare_def)
qed

lemma extract_video_id_None_iff:
  "extract_video_id s = None \<longleftrightarrow>
   \<not> spec_url_shape s \<and> \<not> spec_bare_shape s \<and> \<not> (\<exists>t. token t \<and> s = t @ [CHR 0x0A])"
  using re_search_url_None_iff[of s] re_search_bare_None_iff[of s]
  by (auto simp: extract_video_id_def spec_bare_shape_def split: option.splits)

lemma isspace_newline: "isspace (CHR 0x0A)"
  by (simp add: isspace_def)

lemma strip_last_not_space:
  assumes "strip s \<noteq> []"
  shows "\<not> isspace (last (strip s))"
proof -
  let ?d = "dropWhile isspace (rev (dropWhile isspace s))"
  from assms have d: "?d \<noteq> []" by (simp add: strip_def)
  then have "\<not> isspace (hd ?d)" by (rule hd_dropWhile)
  moreover have "last (strip s) = hd ?d"
    using d by (simp add: strip_def last_rev)
  ultimately show ?thesis by simp
qed

lemma strip_no_final_newline: "strip s \<noteq> t @ [CHR 0x0A]"
proof
  assume e: "strip s = t @ [CHR 0x0A]"
  then have "strip s \<noteq> []" by simp
  from strip_last_not_space[OF this] e isspace_newline show False by simp
qed

lemma extract_stripped_None_iff:
  "extract_video_id (strip u) = None \<longleftrightarrow>
   \<not> spec_url_shape (strip u) \<and> \<not> spec_bare_shape (strip u)"
  using strip_no_final_newline[of u] by (auto simp: extract_video_id_None_iff)

lemma spec_url_shape_slash: "spec_url_shape s \<Longrightarrow> CHR ''/'' \<in> set s"
  using slash_in_markers by (auto simp: spec_url_shape_def)

lemma has_raw_iff:
  "has_raw env v \<longleftrightarrow> (\<exists>d e. raw_lyrics_dir env = Some d \<and> d (v @ ''.json'') = Some e)"
  by (auto simp: has_raw_def exists_in_def split: option.splits)

lemma has_transcribed_iff:
  "has_transcribed env v \<longleftrightarrow>
   (\<exists>d e. transcribed_lyrics_dir env = Some d \<and> d (v @ ''.json'') = Some e)"
  by (auto simp: has_transcribed_def exists_in_def split: option.splits)

lemma dispatch_500_invalid_urls:
  "status (fst (dispatch env vids invalid ex new_ids)) = 500 \<Longrightarrow>
   invalid_urls (fst (dispatch env vids invalid ex new_ids)) = None"
  by (auto simp: dispatch_def Let_def start_failure_def failure_def
      split: option.splits sum.splits prod.splits)

lemma handle_process_500_invalid_urls:
  assumes "status (fst (handle_process env urls)) = 500"
  shows "invalid_urls (fst (handle_process env urls)) = None"
proof -
  have "admitted_ids env urls \<noteq> []"
    using assms by (auto simp: handle_process_status split: if_splits)
  from handle_process_dispatch[OF this] assms show ?thesis
    by (simp add: dispatch_500_invalid_urls)
qed

section \<open>Properties\<close>

text \<open>
  C4. A valid token of eleven characters is extracted as itself whether it is given bare,
  after \<open>youtube.com/watch?v=\<close>, after \<open>youtube.com/embed/\<close> or after \<open>youtu.be/\<close>; a
  scheme or host prefix \<open>p\<close> before the marker (anything without the letter y, such as
  \<open>https://www.\<close>) changes nothing.
\<close>

theorem extract_video_id_same_for_all_shapes:
  assumes "token t" and "CHR ''y'' \<notin> set p"
  shows "extract_video_id t = Some t \<and>
         extract_video_id (p @ ''youtube.com/watch?v='' @ t) = Some t \<and>
         extract_video_id (p @ ''youtube.com/embed/'' @ t) = Some t \<and>
         extract_video_id (p @ ''youtu.be/'' @ t) = Some t"
proof -
  have m: "''youtube.com/watch?v='' \<in> set markers" "''youtube.com/embed/'' \<in> set markers"
    "''youtu.be/'' \<in> set markers"
    by (simp_all add: markers_def)
  show ?thesis
    using extract_bare_token[OF assms(1)] extract_marker_token[OF m(1) assms, of "[]"]
      extract_marker_token[OF m(2) assms, of "[]"] extract_marker_token[OF m(3) assms, of "[]"]
    by simp
qed

theorem extract_video_id_same_for_all_shapes_witness:
  "token ''dQw4w9WgXcQ'' \<and> CHR ''y'' \<notin> set ''https://www.'' \<and>
   extract_video_id ''dQw4w9WgXcQ'' = Some ''dQw4w9WgXcQ'' \<and>
   extract_video_id ''https://www.youtube.com/watch?v=dQw4w9WgXcQ'' = Some ''dQw4w9WgXcQ'' \<and>
   extract_video_id ''https://www.youtube.com/embed/dQw4w9WgXcQ'' = Some ''dQw4w9WgXcQ'' \<and>
   extract_video_id ''https://www.youtu.be/dQw4w9WgXcQ'' = Some ''dQw4w9WgXcQ''"
proof -
  have t: "token ''dQw4w9WgXcQ''"
    by (simp add: token_def idchar_def)
  have p: "CHR ''y'' \<notin> set ''https://www.''"
    by simp
  show ?thesis
    using t p extract_video_id_same_for_all_shapes[OF t p] by simp
qed

text \<open>
  C10. The first pattern is searched for anywhere in the input: when the first occurrence
  of a marker (after any text \<open>p\<close>) is followed by eleven characters of the class, these
  eleven characters are the id, whatever text \<open>s\<close> follows them, more characters of the
  class included. Only the bare shape needs the whole input: a token followed by further
  text \<open>r\<close> without a marker is rejected.
\<close>

theorem extract_video_id_unanchored:
  assumes "m \<in> set markers" and "token t"
    and "\<forall>i<length p. \<not> marker_at (drop i (p @ m @ t @ s))"
  shows "extract_video_id (p @ m @ t @ s) = Some t \<and>
         (r \<noteq> [] \<and> r \<noteq> [CHR 0x0A] \<and> CHR ''/'' \<notin> set r \<longrightarrow> extract_video_id (t @ r) = None)"
  using skip_unmatched_prefix[OF assms(3)] re_search_url_hit[OF marker_token[OF assms(1,2)]]
    extract_after_token[OF assms(2)]
  by (simp add: extract_video_id_def)

theorem extract_video_id_unanchored_witness:
  "''youtu.be/'' \<in> set markers \<and> token ''dQw4w9WgXcQ'' \<and>
   extract_video_id ''see https://youtu.be/dQw4w9WgXcQXYZ now'' = Some ''dQw4w9WgXcQ'' \<and>
   extract_video_id ''dQw4w9WgXcQXYZ'' = None"
proof -
  have m: "''youtu.be/'' \<in> set markers"
    by (simp add: markers_def)
  have t: "token ''dQw4w9WgXcQ''"
    by (simp add: token_def idchar_def)
  have p: "\<forall>i<length ''see https://''.
      \<not> marker_at (drop i (''see https://'' @ ''youtu.be/'' @ ''dQw4w9WgXcQ'' @ ''XYZ now''))"
    by (rule no_y_no_marker_at) simp
  show ?thesis
    using m t extract_video_id_unanchored[OF m t p, of "''XYZ''"] by simp
qed

text \<open>
  C5. For the ids of a batch and the state of the two storage directories, the three
  buckets of \<open>check_existing_videos\<close> are pairwise disjoint, no id is both in a bucket
  and admitted, every id is in a bucket or admitted, and the admitted ids are the ids of
  the batch without those of the three buckets.
\<close>

theorem classification_is_a_partition:
  "set (raw_lyrics (check_existing_videos env vids)) \<inter>
     set (transcribed_lyrics (check_existing_videos env vids)) = {} \<and>
   set (raw_lyrics (check_existing_videos env vids)) \<inter>
     set (both (check_existing_videos env vids)) = {} \<and>
   set (transcribed_lyrics (check_existing_videos env vids)) \<inter>
     set (both (check_existing_videos env vids)) = {} \<and>
   set (admit (check_existing_videos env vids) vids) \<inter>
     (set (raw_lyrics (check_existing_videos env vids)) \<union>
      set (transcribed_lyrics (check_existing_videos env vids)) \<union>
      set (both (check_existing_videos env vids))) = {} \<and>
   set (admit (check_existing_videos env vids) vids) \<union>
     set (raw_lyrics (check_existing_videos env vids)) \<union>
     set (transcribed_lyrics (check_existing_videos env vids)) \<union>
     set (both (check_existing_videos env vids)) = set vids \<and>
   set (admit (check_existing_videos env vids) vids) =
     set vids -
     (set (raw_lyrics (check_existing_videos env vids)) \<union>
      set (transcribed_lyrics (check_existing_videos env vids)) \<union>
      set (both (check_existing_videos env vids)))"
  unfolding admit_check_existing_videos unfolding check_existing_videos_filter
  by auto

theorem classification_is_a_partition_witness:
  "set (raw_lyrics (check_existing_videos env_zero_byte [''dQw4w9WgXcQ'', ''aaaaaaaaaaa''])) =
     {''dQw4w9WgXcQ''} \<and>
   set (admit (check_existing_videos env_zero_byte [''dQw4w9WgXcQ'', ''aaaaaaaaaaa''])
          [''dQw4w9WgXcQ'', ''aaaaaaaaaaa'']) = {''aaaaaaaaaaa''}"
  using classification_is_a_partition[of env_zero_byte "[''dQw4w9WgXcQ'', ''aaaaaaaaaaa'']"]
  by (simp add: admit_check_existing_videos check_existing_videos_filter has_raw_def
      has_transcribed_def exists_in_def env_zero_byte_def env_fresh_def)

text \<open>
  C6. The classification is a function of the existence of \<open><id>.json\<close> in the two
  directories: an id has an artifact in a tier exactly when the directory of the tier
  exists and holds an entry of that name, of any kind and content (a file of zero bytes,
  a file that is not JSON, a directory); the three buckets are the ids filtered by these
  two facts, so two states that agree on them give the same buckets; and with a directory
  missing no id has an artifact in that tier while the classification by the other tier
  goes on.
\<close>

theorem classification_by_existence_only:
  assumes "\<forall>v\<in>set vids.
      (\<exists>d e. raw_lyrics_dir env = Some d \<and> d (v @ ''.json'') = Some e) =
      (\<exists>d e. raw_lyrics_dir env' = Some d \<and> d (v @ ''.json'') = Some e) \<and>
      (\<exists>d e. transcribed_lyrics_dir env = Some d \<and> d (v @ ''.json'') = Some e) =
      (\<exists>d e. transcribed_lyrics_dir env' = Some d \<and> d (v @ ''.json'') = Some e)"
  shows "check_existing_videos env vids = check_existing_videos env' vids \<and>
         check_existing_videos env vids =
           \<lparr>raw_lyrics =
              filter (\<lambda>v. (\<exists>d e. raw_lyrics_dir env = Some d \<and> d (v @ ''.json'') = Some e) \<and>
                   \<not> (\<exists>d e. transcribed_lyrics_dir env = Some d \<and> d (v @ ''.json'') = Some e))
                vids,
            transcribed_lyrics =
              filter (\<lambda>v. \<not> (\<exists>d e. raw_lyrics_dir env = Some d \<and> d (v @ ''.json'') = Some e) \<and>
                   (\<exists>d e. transcribed_lyrics_dir env = Some d \<and> d (v @ ''.json'') = Some e))
                vids,
            both =
              filter (\<lambda>v. (\<exists>d e. raw_lyrics_dir env = Some d \<and> d (v @ ''.json'') = Some e) \<and>
                   (\<exists>d e. transcribed_lyrics_dir env = Some d \<and> d (v @ ''.json'') = Some e))
                vids\<rparr> \<and>
         has_raw env w = (\<exists>d e. raw_lyrics_dir env = Some d \<and> d (w @ ''.json'') = Some e) \<and>
         has_transcribed env w =
           (\<exists>d e. transcribed_lyrics_dir env = Some d \<and> d (w @ ''.json'') = Some e) \<and>
         has_raw (env\<lparr>raw_lyrics_dir := Some (d(v @ ''.json'' \<mapsto> e))\<rparr>) v \<and>
         has_transcribed (env\<lparr>transcribed_lyrics_dir := Some (d(v @ ''.json'' \<mapsto> e))\<rparr>) v \<and>
         check_existing_videos (env\<lparr>raw_lyrics_dir := None\<rparr>) vids =
           \<lparr>raw_lyrics = [], transcribed_lyrics = filter (has_transcribed env) vids,
            both = []\<rparr> \<and>
         check_existing_videos (env\<lparr>transcribed_lyrics_dir := None\<rparr>) vids =
           \<lparr>raw_lyrics = filter (has_raw env) vids, transcribed_lyrics = [], both = []\<rparr>"
proof -
  have a: "\<forall>v\<in>set vids. has_raw env v = has_raw env' v \<and>
                          has_transcribed env v = has_transcribed env' v"
    using assms unfolding has_raw_iff has_transcribed_iff .
  have 1: "check_existing_videos env vids = check_existing_videos env' vids"
    using a by (rule check_existing_videos_cong)
  have 2: "check_existing_videos env vids =
           \<lparr>raw_lyrics =
              filter (\<lambda>v. (\<exists>d e. raw_lyrics_dir env = Some d \<and> d (v @ ''.json'') = Some e) \<and>
                   \<not> (\<exists>d e. transcribed_lyrics_dir env = Some d \<and> d (v @ ''.json'') = Some e))
                vids,
            transcribed_lyrics =
              filter (\<lambda>v. \<not> (\<exists>d e. raw_lyrics_dir env = Some d \<and> d (v @ ''.json'') = Some e) \<and>
                   (\<exists>d e. transcribed_lyrics_dir env = Some d \<and> d (v @ ''.json'') = Some e))
                vids,
            both =
              filter (\<lambda>v. (\<exists>d e. raw_lyrics_dir env = Some d \<and> d (v @ ''.json'') = Some e) \<and>
                   (\<exists>d e. transcribed_lyrics_dir env = Some d \<and> d (v @ ''.json'') = Some e))
                vids\<rparr>"
    unfolding check_existing_videos_filter has_raw_iff has_transcribed_iff ..
  have 3: "has_raw (env\<lparr>raw_lyrics_dir := Some (d(v @ ''.json'' \<mapsto> e))\<rparr>) v"
    "has_transcribed (env\<lparr>transcribed_lyrics_dir := Some (d(v @ ''.json'' \<mapsto> e))\<rparr>) v"
    by (simp_all add: has_raw_def has_transcribed_def exists_in_def)
  show ?thesis
    using 1 2 3 has_raw_iff[of env w] has_transcribed_iff[of env w]
      missing_raw_dir[of env vids] missing_transcribed_dir[of env vids]
    by (intro conjI) assumption+
qed

theorem classification_by_existence_only_witness:
  "check_existing_videos env_zero_byte [''dQw4w9WgXcQ'', ''aaaaaaaaaaa''] =
     check_existing_videos env_corrupt [''dQw4w9WgXcQ'', ''aaaaaaaaaaa''] \<and>
   check_existing_videos env_zero_byte [''dQw4w9WgXcQ'', ''aaaaaaaaaaa''] =
     \<lparr>raw_lyrics = [''dQw4w9WgXcQ''], transcribed_lyrics = [], both = []\<rparr> \<and>
   \<not> has_raw env_zero_byte ''aaaaaaaaaaa'' \<and>
   check_existing_videos (env_zero_byte\<lparr>raw_lyrics_dir := None\<rparr>)
       [''dQw4w9WgXcQ'', ''aaaaaaaaaaa''] =
     \<lparr>raw_lyrics = [], transcribed_lyrics = [], both = []\<rparr>"
proof -
  let ?vids = "[''dQw4w9WgXcQ'', ''aaaaaaaaaaa'']"
  have r: "\<And>v. (\<exists>d e. raw_lyrics_dir env_zero_byte = Some d \<and> d (v @ ''.json'') = Some e) =
             (v = ''dQw4w9WgXcQ'')"
    "\<And>v. (\<exists>d e. raw_lyrics_dir env_corrupt = Some d \<and> d (v @ ''.json'') = Some e) =
             (v = ''dQw4w9WgXcQ'')"
    "\<And>v. (\<exists>d e. transcribed_lyrics_dir env_zero_byte = Some d \<and> d (v @ ''.json'') = Some e) =
             False"
    "\<And>v. (\<exists>d e. transcribed_lyrics_dir env_corrupt = Some d \<and> d (v @ ''.json'') = Some e) =
             False"
    by (auto simp: env_zero_byte_def env_corrupt_def env_fresh_def)
  have h: "\<forall>v\<in>set ?vids.
      (\<exists>d e. raw_lyrics_dir env_zero_byte = Some d \<and> d (v @ ''.json'') = Some e) =
      (\<exists>d e. raw_lyrics_dir env_corrupt = Some d \<and> d (v @ ''.json'') = Some e) \<and>
      (\<exists>d e. transcribed_lyrics_dir env_zero_byte = Some d \<and> d (v @ ''.json'') = Some e) =
      (\<exists>d e. transcribed_lyrics_dir env_corrupt = Some d \<and> d (v @ ''.json'') = Some e)"
    unfolding r by simp
  have t: "filter (has_transcribed env_zero_byte) ?vids = []"
    by (simp add: has_transcribed_def exists_in_def env_zero_byte_def env_fresh_def)
  note c = classification_by_existence_only[OF h, of "''aaaaaaaaaaa''" Map.empty
        "''dQw4w9WgXcQ''" "File []"]
  from c have 1: "check_existing_videos env_zero_byte ?vids =
      check_existing_videos env_corrupt ?vids"
    by blast
  from c have "check_existing_videos env_zero_byte ?vids =
           \<lparr>raw_lyrics =
              filter (\<lambda>v. (\<exists>d e. raw_lyrics_dir env_zero_byte = Some d \<and>
                              d (v @ ''.json'') = Some e) \<and>
                   \<not> (\<exists>d e. transcribed_lyrics_dir env_zero_byte = Some d \<and>
                              d (v @ ''.json'') = Some e))
                ?vids,
            transcribed_lyrics =
              filter (\<lambda>v. \<not> (\<exists>d e. raw_lyrics_dir env_zero_byte = Some d \<and>
                              d (v @ ''.json'') = Some e) \<and>
                   (\<exists>d e. transcribed_lyrics_dir env_zero_byte = Some d \<and>
                              d (v @ ''.json'') = Some e))
                ?vids,
            both =
              filter (\<lambda>v. (\<exists>d e. raw_lyrics_dir env_zero_byte = Some d \<and>
                              d (v @ ''.json'') = Some e) \<and>
                   (\<exists>d e. transcribed_lyrics_dir env_zero_byte = Some d \<and>
                              d (v @ ''.json'') = Some e))
                ?vids\<rparr>"
    by blast
  then have 2: "check_existing_videos env_zero_byte ?vids =
      \<lparr>raw_lyrics = [''dQw4w9WgXcQ''], transcribed_lyrics = [], both = []\<rparr>"
    unfolding r by simp
  from c have "has_raw env_zero_byte ''aaaaaaaaaaa'' =
      (\<exists>d e. raw_lyrics_dir env_zero_byte = Some d \<and> d (''aaaaaaaaaaa'' @ ''.json'') = Some e)"
    by blast
  then have 3: "\<not> has_raw env_zero_byte ''aaaaaaaaaaa''"
    unfolding r by simp
  from c have "check_existing_videos (env_zero_byte\<lparr>raw_lyrics_dir := None\<rparr>) ?vids =
      \<lparr>raw_lyrics = [], transcribed_lyrics = filter (has_transcribed env_zero_byte) ?vids,
       both = []\<rparr>"
    by blast
  then have 4: "check_existing_videos (env_zero_byte\<lparr>raw_lyrics_dir := None\<rparr>) ?vids =
      \<lparr>raw_lyrics = [], transcribed_lyrics = [], both = []\<rparr>"
    unfolding t .
  from 1 2 3 4 show ?thesis
    by (intro conjI) assumption+
qed

text \<open>
  C3. When a batch has a recognised id and every recognised id has an artifact in one of
  the tiers, nothing is admitted and the response is the one of success with
  \<open>skipped\<close> set, without \<open>new_video_ids\<close>, \<open>process_ids\<close> or \<open>log_file\<close>; no call of
  \<open>Popen\<close> is made, and neither the resolution of Node nor the log is touched.
\<close>

theorem all_existing_is_skipped:
  assumes "recognized_ids urls \<noteq> []"
    and "\<forall>v\<in>set (recognized_ids urls). has_raw env v \<or> has_transcribed env v"
  shows "admitted_ids env urls = [] \<and>
         handle_process env urls =
           (\<lparr>status = 200, success = True, error = None,
             message = Some ''All videos already exist'',
             video_ids = Some (recognized_ids urls), new_video_ids = None,
             invalid_urls = Some (snd (extract_ids urls)),
             existing = Some (check_existing_videos env (recognized_ids urls)),
             skipped = Some True, process_ids = None, log_file = None\<rparr>, [])"
proof -
  have u: "urls \<noteq> []"
    using assms(1) by (auto simp: recognized_ids_def extract_ids_Nil)
  have a: "admitted_ids env urls = []"
    unfolding admitted_ids_def admit_check_existing_videos
    using assms(2) by (simp add: filter_empty_conv)
  then have "admit (check_existing_videos env (fst (extract_ids urls))) (fst (extract_ids urls)) = []"
    by (simp add: admitted_ids_def recognized_ids_def)
  with u assms(1) a show ?thesis
    by (simp add: handle_process_def recognized_ids_def Let_def)
qed

theorem all_existing_is_skipped_witness:
  "recognized_ids [''https://youtu.be/dQw4w9WgXcQ'', ''dQw4w9WgXcQ''] \<noteq> [] \<and>
   skipped (fst (handle_process env_zero_byte [''https://youtu.be/dQw4w9WgXcQ'', ''dQw4w9WgXcQ'']))
     = Some True \<and>
   snd (handle_process env_zero_byte [''https://youtu.be/dQw4w9WgXcQ'', ''dQw4w9WgXcQ'']) = []"
proof -
  have r: "recognized_ids [''https://youtu.be/dQw4w9WgXcQ'', ''dQw4w9WgXcQ''] =
      [''dQw4w9WgXcQ'', ''dQw4w9WgXcQ'']"
    by code_simp
  have n: "recognized_ids [''https://youtu.be/dQw4w9WgXcQ'', ''dQw4w9WgXcQ''] \<noteq> []"
    by (simp add: r)
  have h: "\<forall>v\<in>set (recognized_ids [''https://youtu.be/dQw4w9WgXcQ'', ''dQw4w9WgXcQ'']).
      has_raw env_zero_byte v \<or> has_transcribed env_zero_byte v"
    by (simp add: r has_raw_def exists_in_def env_zero_byte_def env_fresh_def)
  show ?thesis
    using n all_existing_is_skipped[OF n h] by simp
qed

text \<open>
  C9, as amended. The status is 400 exactly when no id is recognised in the submitted
  references (the empty batch included). With an id recognised it is 200 when nothing is
  admitted, and when something is admitted it is 200 if the log can be prepared and every
  launch succeeds, and 500 if the preparation of the log or a launch raises.
\<close>

theorem status_of_response:
  "(status (fst (handle_process env urls)) = 400 \<longleftrightarrow> recognized_ids urls = []) \<and>
   status (fst (handle_process env urls)) =
     (if recognized_ids urls = [] then 400
      else if admitted_ids env urls = [] then 200
      else if log_failure env \<noteq> None \<or>
              (\<exists>k<length (admitted_ids env urls).
                 isl (popen env k (build_cmd (resolve_runtime env) (admitted_ids env urls ! k))))
      then 500 else 200)"
  using launch_loop_isl[of env "resolve_runtime env" "admitted_ids env urls" "[]" "[]"]
  by (simp add: handle_process_status)

theorem status_of_response_witness:
  "status (fst (handle_process env_fresh [''dQw4w9WgXcQ'', ''not-a-url''])) = 200 \<and>
   status (fst (handle_process env_zero_byte [''dQw4w9WgXcQ''])) = 200 \<and>
   status (fst (handle_process env_fresh [''not-a-url''])) = 400 \<and>
   status (fst (handle_process env_second_launch_fails
                  [''aaaaaaaaaaa'', ''bbbbbbbbbbb'', ''ccccccccccc''])) = 500"
proof -
  have r: "recognized_ids [''dQw4w9WgXcQ'', ''not-a-url''] = [''dQw4w9WgXcQ'']"
    "recognized_ids [''dQw4w9WgXcQ''] = [''dQw4w9WgXcQ'']"
    "recognized_ids [''not-a-url''] = []"
    "recognized_ids [''aaaaaaaaaaa'', ''bbbbbbbbbbb'', ''ccccccccccc''] =
       [''aaaaaaaaaaa'', ''bbbbbbbbbbb'', ''ccccccccccc'']"
    by code_simp+
  have a: "admitted_ids env_fresh [''dQw4w9WgXcQ'', ''not-a-url''] = [''dQw4w9WgXcQ'']"
    "admitted_ids env_zero_byte [''dQw4w9WgXcQ''] = []"
    "admitted_ids env_second_launch_fails [''aaaaaaaaaaa'', ''bbbbbbbbbbb'', ''ccccccccccc''] =
       [''aaaaaaaaaaa'', ''bbbbbbbbbbb'', ''ccccccccccc'']"
    by code_simp+
  have l: "log_failure env_fresh = None" "log_failure env_second_launch_fails = None"
    "\<And>k c. popen env_fresh k c = Inr (4000 + k)"
    by (simp_all add: env_fresh_def env_second_launch_fails_def)
  have f: "\<exists>k<Suc (Suc (Suc 0)). isl (popen env_second_launch_fails k
      (build_cmd (resolve_runtime env_second_launch_fails)
         ([''aaaaaaaaaaa'', ''bbbbbbbbbbb'', ''ccccccccccc''] ! k)))"
    by (intro exI[of _ 1]) (simp add: env_second_launch_fails_def env_fresh_def)
  show ?thesis
    using status_of_response[of env_fresh "[''dQw4w9WgXcQ'', ''not-a-url'']"]
      status_of_response[of env_zero_byte "[''dQw4w9WgXcQ'']"]
      status_of_response[of env_fresh "[''not-a-url'']"]
      status_of_response[of env_second_launch_fails
        "[''aaaaaaaaaaa'', ''bbbbbbbbbbb'', ''ccccccccccc'']"] f
    by (simp add: r a l)
qed

text \<open>
  C9 as written gives 200 whenever an id is recognised. With one new id and no \<open>node\<close>
  to run, the id is recognised and the status is 500.
\<close>

theorem status_200_otherwise_counterexample:
  "recognized_ids [''dQw4w9WgXcQ''] = [''dQw4w9WgXcQ''] \<and>
   status (fst (handle_process env_no_node [''dQw4w9WgXcQ''])) = 500"
  by code_simp

text \<open>
  C2, as amended. When the log can be prepared and the launch for the admitted id of
  index \<open>k\<close> is the first to raise, the batch ends there: \<open>Popen\<close> has been called for
  the admitted ids up to index \<open>k\<close> and for no later one, and the response is the failure
  of status 500 with the text of the exception, without process ids, also for the
  children started before.
\<close>

theorem launch_failure_ends_the_batch:
  assumes "log_failure env = None"
    and "k < length (admitted_ids env urls)"
    and "\<forall>j<k. \<exists>pid. popen env j (build_cmd (resolve_runtime env) (admitted_ids env urls ! j))
                        = Inr pid"
    and "popen env k (build_cmd (resolve_runtime env) (admitted_ids env urls ! k)) = Inl e"
  shows "fst (handle_process env urls) = start_failure e \<and>
         map fst (snd (handle_process env urls)) =
           map (build_cmd (resolve_runtime env)) (take (Suc k) (admitted_ids env urls)) \<and>
         status (start_failure e) = 500 \<and> process_ids (start_failure e) = None"
proof -
  have ne: "admitted_ids env urls \<noteq> []"
    using assms(2) by auto
  have f: "fst (launch_loop env (resolve_runtime env) (admitted_ids env urls) [] []) = Inl e \<and>
      map fst (snd (launch_loop env (resolve_runtime env) (admitted_ids env urls) [] [])) =
        map fst [] @ map (build_cmd (resolve_runtime env)) (take (Suc k) (admitted_ids env urls))"
    using launch_loop_fail[where calls="[]" and pids="[]", OF assms(2)] assms(3,4) by simp
  obtain r cs where l: "launch_loop env (resolve_runtime env) (admitted_ids env urls) [] [] = (r, cs)"
    by (cases "launch_loop env (resolve_runtime env) (admitted_ids env urls) [] []")
  with f have "r = Inl e" "map fst cs =
      map (build_cmd (resolve_runtime env)) (take (Suc k) (admitted_ids env urls))"
    by simp_all
  with l assms(1) show ?thesis
    by (simp add: handle_process_dispatch[OF ne] dispatch_def Let_def start_failure_def failure_def)
qed

theorem launch_failure_ends_the_batch_witness:
  "fst (handle_process env_second_launch_fails
          [''aaaaaaaaaaa'', ''bbbbbbbbbbb'', ''ccccccccccc'']) =
     start_failure ''[Errno 13] Permission denied'' \<and>
   length (snd (handle_process env_second_launch_fails
          [''aaaaaaaaaaa'', ''bbbbbbbbbbb'', ''ccccccccccc''])) = 2"
proof -
  let ?urls = "[''aaaaaaaaaaa'', ''bbbbbbbbbbb'', ''ccccccccccc'']"
  have a: "admitted_ids env_second_launch_fails ?urls = ?urls"
    by code_simp
  have 1: "log_failure env_second_launch_fails = None"
    by (simp add: env_second_launch_fails_def env_fresh_def)
  have 2: "1 < length (admitted_ids env_second_launch_fails ?urls)"
    by (simp add: a)
  have 3: "\<forall>j<1. \<exists>pid. popen env_second_launch_fails j
      (build_cmd (resolve_runtime env_second_launch_fails)
         (admitted_ids env_second_launch_fails ?urls ! j)) = Inr pid"
    by (simp add: env_second_launch_fails_def env_fresh_def)
  have 4: "popen env_second_launch_fails 1
      (build_cmd (resolve_runtime env_second_launch_fails)
         (admitted_ids env_second_launch_fails ?urls ! 1)) = Inl ''[Errno 13] Permission denied''"
    by (simp add: env_second_launch_fails_def env_fresh_def)
  from launch_failure_ends_the_batch[OF 1 2 3 4]
  have "fst (handle_process env_second_launch_fails ?urls) =
          start_failure ''[Errno 13] Permission denied''"
    and "length (map fst (snd (handle_process env_second_launch_fails ?urls))) =
          length (map (build_cmd (resolve_runtime env_second_launch_fails))
            (take (Suc 1) (admitted_ids env_second_launch_fails ?urls)))"
    by simp_all
  then show ?thesis
    by (simp add: a)
qed

text \<open>
  C2 as written lets the launches after a failed one go on and records the failure beside
  the process ids. With three admitted ids and the second launch raising, the third id is
  never launched and the response is the failure of status 500 without process ids.
\<close>

theorem launch_isolation_counterexample:
  "admitted_ids env_second_launch_fails [''aaaaaaaaaaa'', ''bbbbbbbbbbb'', ''ccccccccccc''] =
     [''aaaaaaaaaaa'', ''bbbbbbbbbbb'', ''ccccccccccc''] \<and>
   map snd (snd (handle_process env_second_launch_fails
                   [''aaaaaaaaaaa'', ''bbbbbbbbbbb'', ''ccccccccccc''])) =
     [Inr 4000, Inl ''[Errno 13] Permission denied''] \<and>
   status (fst (handle_process env_second_launch_fails
                  [''aaaaaaaaaaa'', ''bbbbbbbbbbb'', ''ccccccccccc''])) = 500 \<and>
   process_ids (fst (handle_process env_second_launch_fails
                       [''aaaaaaaaaaa'', ''bbbbbbbbbbb'', ''ccccccccccc''])) = None"
  by code_simp

text \<open>
  C1, as amended. The recognised ids are the ids extracted from the stripped, non-empty
  references, one for each reference that matches and in the order of submission,
  repetitions kept. The admitted ids are the recognised ids that have no artifact in
  either tier, in the same order and with the same repetitions. When the response reports
  process ids, \<open>Popen\<close> has been called once for each entry of the admitted list, in order,
  and there is one process id for each entry.
\<close>

theorem admission_keeps_order_and_duplicates:
  assumes "process_ids (fst (handle_process env urls)) = Some pids"
  shows "video_ids (fst (handle_process env urls)) = Some (recognized_ids urls) \<and>
         recognized_ids urls =
           List.map_filter extract_video_id (filter (\<lambda>x. x \<noteq> []) (map strip urls)) \<and>
         new_video_ids (fst (handle_process env urls)) = Some (admitted_ids env urls) \<and>
         admitted_ids env urls =
           filter (\<lambda>v. \<not> has_raw env v \<and> \<not> has_transcribed env v) (recognized_ids urls) \<and>
         length pids = length (admitted_ids env urls) \<and>
         snd (handle_process env urls) =
           zip (map (build_cmd (resolve_runtime env)) (admitted_ids env urls)) (map Inr pids)"
proof -
  have ne: "admitted_ids env urls \<noteq> []"
    using assms by (rule handle_process_process_ids)
  note d = handle_process_dispatch[OF ne]
  from assms have p: "process_ids (fst (dispatch env (recognized_ids urls) (snd (extract_ids urls))
       (check_existing_videos env (recognized_ids urls)) (admitted_ids env urls))) = Some pids"
    by (simp add: d)
  note q = dispatch_process_ids[OF p]
  from q launch_loop_Inr[of env "resolve_runtime env" "admitted_ids env urls" "[]" "[]" pids]
  obtain new where "pids = [] @ new" "length new = length (admitted_ids env urls)"
    "snd (handle_process env urls) =
       [] @ zip (map (build_cmd (resolve_runtime env)) (admitted_ids env urls)) (map Inr new)"
    unfolding d by blast
  with q show ?thesis
    by (simp add: d recognized_ids_eq[symmetric] admitted_ids_eq[symmetric])
qed

theorem admission_keeps_order_and_duplicates_witness:
  "process_ids (fst (handle_process env_fresh
      [''https://youtu.be/dQw4w9WgXcQ'', ''dQw4w9WgXcQ'', ''not-a-url''])) = Some [4000, 4001] \<and>
   new_video_ids (fst (handle_process env_fresh
      [''https://youtu.be/dQw4w9WgXcQ'', ''dQw4w9WgXcQ'', ''not-a-url''])) =
     Some (admitted_ids env_fresh
      [''https://youtu.be/dQw4w9WgXcQ'', ''dQw4w9WgXcQ'', ''not-a-url'']) \<and>
   length [4000, 4001 :: nat] = length (admitted_ids env_fresh
      [''https://youtu.be/dQw4w9WgXcQ'', ''dQw4w9WgXcQ'', ''not-a-url''])"
proof -
  have p: "process_ids (fst (handle_process env_fresh
      [''https://youtu.be/dQw4w9WgXcQ'', ''dQw4w9WgXcQ'', ''not-a-url''])) = Some [4000, 4001]"
    by code_simp
  show ?thesis
    using p admission_keeps_order_and_duplicates[OF p] by simp
qed

text \<open>
  C1 as written collapses two references to the same id into one recognised id, one
  admission and one dispatch handle. On the example of the specification, with no
  artifact stored, the id is recognised twice, admitted twice and launched twice.
\<close>

theorem deduplication_counterexample:
  "video_ids (fst (handle_process env_fresh
      [''https://youtu.be/dQw4w9WgXcQ'', ''dQw4w9WgXcQ'', ''not-a-url''])) =
     Some [''dQw4w9WgXcQ'', ''dQw4w9WgXcQ''] \<and>
   new_video_ids (fst (handle_process env_fresh
      [''https://youtu.be/dQw4w9WgXcQ'', ''dQw4w9WgXcQ'', ''not-a-url''])) =
     Some [''dQw4w9WgXcQ'', ''dQw4w9WgXcQ''] \<and>
   process_ids (fst (handle_process env_fresh
      [''https://youtu.be/dQw4w9WgXcQ'', ''dQw4w9WgXcQ'', ''not-a-url''])) = Some [4000, 4001] \<and>
   length (snd (handle_process env_fresh
      [''https://youtu.be/dQw4w9WgXcQ'', ''dQw4w9WgXcQ'', ''not-a-url''])) = 2"
  by code_simp

text \<open>
  C7, as amended. A submitted reference whose stripped form is not empty and has none of
  the shapes is rejected by the extraction in its stripped form and is among the invalid
  references in that form, hence as submitted when it has no surrounding whitespace; and
  every response whose status is not 500 carries the invalid references as
  \<open>invalid_urls\<close>. In general a string is rejected exactly when it has neither shape and
  is not a token followed by one final newline.
\<close>

theorem invalid_reference_reported_stripped:
  assumes "u \<in> set urls" and "strip u \<noteq> []"
    and "\<not> spec_url_shape (strip u)" and "\<not> spec_bare_shape (strip u)"
  shows "extract_video_id (strip u) = None \<and>
         strip u \<in> set (snd (extract_ids urls)) \<and>
         (strip u = u \<longrightarrow> u \<in> set (snd (extract_ids urls))) \<and>
         (status (fst (handle_process env urls)) \<noteq> 500 \<longrightarrow>
            invalid_urls (fst (handle_process env urls)) = Some (snd (extract_ids urls))) \<and>
         (extract_video_id x = None \<longleftrightarrow>
            \<not> spec_url_shape x \<and> \<not> spec_bare_shape x \<and>
            \<not> (\<exists>t. token t \<and> x = t @ [CHR 0x0A]))"
proof -
  have n: "extract_video_id (strip u) = None"
    using assms(3,4) by (simp add: extract_stripped_None_iff)
  have "urls \<noteq> []" using assms(1) by auto
  moreover have "strip u \<in> set (snd (extract_ids urls))"
    using assms(1,2) n by (simp add: invalid_eq)
  ultimately show ?thesis
    using n handle_process_invalid_urls[of urls env] extract_video_id_None_iff[of x] by auto
qed

theorem invalid_reference_reported_stripped_witness:
  "'' not-a-url'' \<in> set ['' not-a-url'', ''dQw4w9WgXcQ''] \<and>
   strip '' not-a-url'' = ''not-a-url'' \<and>
   \<not> spec_url_shape ''not-a-url'' \<and> \<not> spec_bare_shape ''not-a-url'' \<and>
   extract_video_id ''not-a-url'' = None \<and>
   invalid_urls (fst (handle_process env_fresh ['' not-a-url'', ''dQw4w9WgXcQ''])) =
     Some [''not-a-url'']"
proof -
  have s: "strip '' not-a-url'' = ''not-a-url''"
    by code_simp
  have 1: "'' not-a-url'' \<in> set ['' not-a-url'', ''dQw4w9WgXcQ'']"
    by simp
  have 2: "strip '' not-a-url'' \<noteq> []"
    by (simp add: s)
  have 3: "\<not> spec_url_shape (strip '' not-a-url'')"
    unfolding s using spec_url_shape_slash[of "''not-a-url''"] by auto
  have 4: "\<not> spec_bare_shape (strip '' not-a-url'')"
    unfolding s by (simp add: spec_bare_shape_def token_def)
  have 5: "status (fst (handle_process env_fresh ['' not-a-url'', ''dQw4w9WgXcQ''])) \<noteq> 500"
    by code_simp
  have 6: "snd (extract_ids ['' not-a-url'', ''dQw4w9WgXcQ'']) = [''not-a-url'']"
    by code_simp
  show ?thesis
    using s 3 4 5 6 invalid_reference_reported_stripped[OF 1 2 3 4, of env_fresh "[]"] by simp
qed

text \<open>
  C7 as written reports the string as it was submitted. A reference that starts with a
  space matches no shape and is reported without the space.
\<close>

theorem verbatim_counterexample:
  "extract_video_id '' not-a-url'' = None \<and>
   invalid_urls (fst (handle_process env_fresh ['' not-a-url''])) = Some [''not-a-url''] \<and>
   '' not-a-url'' \<notin> set [''not-a-url'']"
  by code_simp

text \<open>
  C8, as amended. A reference that is empty or made of whitespace only leaves the
  recognised ids and the invalid references as they are without it, and so the whole
  response when another reference remains; no such string is among the invalid
  references; every reference that is not blank and whose stripped form has none of the
  shapes has its stripped form among the invalid references, which hold nothing else;
  every response of a status other than 500 to a non-empty batch carries them as
  \<open>invalid_urls\<close>, and the response of status 500 has no \<open>invalid_urls\<close>.
\<close>

theorem blank_references_are_skipped:
  "(blank u \<longrightarrow> extract_ids (us @ u # vs) = extract_ids (us @ vs)) \<and>
   (blank u \<and> us @ vs \<noteq> [] \<longrightarrow> handle_process env (us @ u # vs) = handle_process env (us @ vs)) \<and>
   (\<forall>x\<in>set (snd (extract_ids urls)). \<not> blank x) \<and>
   (\<forall>x\<in>set urls. \<not> blank x \<and> \<not> spec_url_shape (strip x) \<and> \<not> spec_bare_shape (strip x) \<longrightarrow>
      strip x \<in> set (snd (extract_ids urls))) \<and>
   (\<forall>x\<in>set (snd (extract_ids urls)).
      \<not> spec_url_shape x \<and> \<not> spec_bare_shape x \<and> (\<exists>u\<in>set urls. x = strip u)) \<and>
   (urls \<noteq> [] \<and> status (fst (handle_process env urls)) \<noteq> 500 \<longrightarrow>
      invalid_urls (fst (handle_process env urls)) = Some (snd (extract_ids urls))) \<and>
   (status (fst (handle_process env urls)) = 500 \<longrightarrow>
      invalid_urls (fst (handle_process env urls)) = None)"
proof -
  have 1: "blank u \<longrightarrow> extract_ids (us @ u # vs) = extract_ids (us @ vs)"
    by (simp add: blank_extract_ids)
  have 2: "blank u \<and> us @ vs \<noteq> [] \<longrightarrow>
      handle_process env (us @ u # vs) = handle_process env (us @ vs)"
  proof
    assume h: "blank u \<and> us @ vs \<noteq> []"
    then have "extract_ids (us @ u # vs) = extract_ids (us @ vs)"
      by (simp add: blank_extract_ids)
    moreover have "us @ u # vs \<noteq> []" by simp
    ultimately show "handle_process env (us @ u # vs) = handle_process env (us @ vs)"
      using h unfolding handle_process_def by (simp only: if_False)
  qed
  have 3: "\<forall>x\<in>set (snd (extract_ids urls)). \<not> blank x"
    using strip_not_blank by (auto simp: invalid_eq)
  have 4: "\<forall>x\<in>set urls. \<not> blank x \<and> \<not> spec_url_shape (strip x) \<and>
      \<not> spec_bare_shape (strip x) \<longrightarrow> strip x \<in> set (snd (extract_ids urls))"
    by (auto simp: invalid_eq strip_Nil_iff extract_stripped_None_iff)
  have 5: "\<forall>x\<in>set (snd (extract_ids urls)).
      \<not> spec_url_shape x \<and> \<not> spec_bare_shape x \<and> (\<exists>u\<in>set urls. x = strip u)"
    using extract_stripped_None_iff by (auto simp: invalid_eq)
  have 6: "urls \<noteq> [] \<and> status (fst (handle_process env urls)) \<noteq> 500 \<longrightarrow>
      invalid_urls (fst (handle_process env urls)) = Some (snd (extract_ids urls))"
    using handle_process_invalid_urls[of urls env] by blast
  have 7: "status (fst (handle_process env urls)) = 500 \<longrightarrow>
      invalid_urls (fst (handle_process env urls)) = None"
    using handle_process_500_invalid_urls[of env urls] by blast
  show ?thesis
    using 1 2 3 4 5 6 7 by (intro conjI) assumption+
qed

theorem blank_references_are_skipped_witness:
  "blank ''   '' \<and>
   extract_ids [''dQw4w9WgXcQ'', ''   '', ''not-a-url''] = ([''dQw4w9WgXcQ''], [''not-a-url'']) \<and>
   handle_process env_fresh [''dQw4w9WgXcQ'', ''   '', ''not-a-url''] =
     handle_process env_fresh [''dQw4w9WgXcQ'', ''not-a-url''] \<and>
   \<not> blank ''not-a-url'' \<and> \<not> spec_url_shape (strip ''not-a-url'') \<and>
   \<not> spec_bare_shape (strip ''not-a-url'') \<and>
   strip ''not-a-url'' \<in> set (snd (extract_ids [''dQw4w9WgXcQ'', ''   '', ''not-a-url''])) \<and>
   invalid_urls (fst (handle_process env_fresh [''dQw4w9WgXcQ'', ''   '', ''not-a-url''])) =
     Some [''not-a-url'']"
proof -
  let ?urls = "[''dQw4w9WgXcQ'', ''   '', ''not-a-url'']"
  have b: "blank ''   ''"
    by code_simp
  have e: "extract_ids [''dQw4w9WgXcQ'', ''not-a-url''] = ([''dQw4w9WgXcQ''], [''not-a-url''])"
    by code_simp
  have s: "strip ''not-a-url'' = ''not-a-url''"
    by code_simp
  have n: "\<not> blank ''not-a-url''"
    by code_simp
  have u: "\<not> spec_url_shape (strip ''not-a-url'')"
    unfolding s using spec_url_shape_slash[of "''not-a-url''"] by auto
  have t: "\<not> spec_bare_shape (strip ''not-a-url'')"
    unfolding s by (simp add: spec_bare_shape_def token_def)
  have m: "''not-a-url'' \<in> set ?urls"
    by simp
  have st: "status (fst (handle_process env_fresh ?urls)) \<noteq> 500"
    by code_simp
  from blank_references_are_skipped[of "''   ''" "[''dQw4w9WgXcQ'']" "[''not-a-url'']"
        env_fresh ?urls]
  have 1: "blank ''   '' \<longrightarrow>
        extract_ids ([''dQw4w9WgXcQ''] @ ''   '' # [''not-a-url'']) =
        extract_ids ([''dQw4w9WgXcQ''] @ [''not-a-url''])"
    and 2: "blank ''   '' \<and> [''dQw4w9WgXcQ''] @ [''not-a-url''] \<noteq> [] \<longrightarrow>
        handle_process env_fresh ([''dQw4w9WgXcQ''] @ ''   '' # [''not-a-url'']) =
        handle_process env_fresh ([''dQw4w9WgXcQ''] @ [''not-a-url''])"
    and 4: "\<forall>x\<in>set ?urls.
        \<not> blank x \<and> \<not> spec_url_shape (strip x) \<and> \<not> spec_bare_shape (strip x) \<longrightarrow>
        strip x \<in> set (snd (extract_ids ?urls))"
    and 6: "?urls \<noteq> [] \<and> status (fst (handle_process env_fresh ?urls)) \<noteq> 500 \<longrightarrow>
      invalid_urls (fst (handle_process env_fresh ?urls)) = Some (snd (extract_ids ?urls))"
    by blast+
  from 4 m n u t have i: "strip ''not-a-url'' \<in> set (snd (extract_ids ?urls))"
    by blast
  from 6 st have j: "invalid_urls (fst (handle_process env_fresh ?urls)) =
      Some (snd (extract_ids ?urls))"
    by simp
  from b e 1 have k: "extract_ids ?urls = ([''dQw4w9WgXcQ''], [''not-a-url''])"
    by simp
  from b n u t i j k 2 show ?thesis
    by simp
qed

text \<open>
  C8 as written has every malformed reference reported for every batch. With a malformed
  reference beside a new id whose launch raises, the response is the failure of status
  500 and has no \<open>invalid_urls\<close>.
\<close>

theorem always_reported_counterexample:
  "\<not> blank ''not-a-url'' \<and> extract_video_id (strip ''not-a-url'') = None \<and>
   status (fst (handle_process env_no_node [''not-a-url'', ''dQw4w9WgXcQ''])) = 500 \<and>
   invalid_urls (fst (handle_process env_no_node [''not-a-url'', ''dQw4w9WgXcQ''])) = None"
  by code_simp

end
